theory Spec2Isabelle
  imports Main "HOL-Library.Word"
begin

section \<open>Data model of the scheduler simulator (pa2.c)\<close>

text \<open>
  pa2.c works on three globals owned by the framework: \<^verbatim>\<open>current\<close>, \<^verbatim>\<open>readyqueue\<close>
  and \<^verbatim>\<open>resources[NR_RESOURCES]\<close>. A \<^verbatim>\<open>struct process *\<close> is modelled as a process
  reference (a natural number naming the object) and \<^verbatim>\<open>NULL\<close> as \<open>None\<close>; the
  process objects themselves live in a store \<open>procs\<close>, so that a write through one
  pointer is seen through every other pointer to the same process.

  The kernel-style intrusive lists (\<^verbatim>\<open>struct list_head\<close>) are lists of process
  references in link order. A list node can be linked into one list at one place only, so
  the lists of a state the C program can be in hold no reference twice; theorems that
  depend on it assume \<open>distinct\<close>.
\<close>

type_synonym u32 = "32 word"
type_synonym pref = nat
type_synonym rid = nat

text \<open>
  Modelled from the spec: process.h is not among the sources. The three status names are
  the ones pa2.c uses; the spec names a fourth, terminated, status.
\<close>

datatype process_status =
  PROCESS_READY | PROCESS_RUNNING | PROCESS_BLOCKED | PROCESS_TERMINATED

text \<open>
  Modelled from the spec: the fields of \<^verbatim>\<open>struct process\<close> that pa2.c reads and
  writes. They are compared with \<^verbatim>\<open>unsigned int\<close> locals initialised to \<^verbatim>\<open>UINT_MAX\<close> and 0,
  and are taken to be \<^verbatim>\<open>unsigned int\<close> of 32 bits. The \<^verbatim>\<open>list\<close> field is the
  membership in the lists of the state.
\<close>

record process =
  status :: process_status
  age :: u32
  lifespan :: u32
  prio :: u32
  prio_orig :: u32

text \<open>
  Modelled from the spec: resource.h is not among the sources; pa2.c uses the fields
  \<^verbatim>\<open>owner\<close> and \<^verbatim>\<open>waitqueue\<close>. The table \<^verbatim>\<open>resources\<close> is indexed by resource id;
  an id is taken to be a valid index of the table.
\<close>

record resource =
  owner :: "pref option"
  waitqueue :: "pref list"

record sched_state =
  procs :: "pref \<Rightarrow> process"
  current :: "pref option"
  readyqueue :: "pref list"
  resources :: "rid \<Rightarrow> resource"

text \<open>
  A failed \<^verbatim>\<open>assert\<close> and a dereference of \<^verbatim>\<open>NULL\<close> end the run; they are results of
  the model.
\<close>

datatype error = NullDeref | AssertFail

definition UINT_MAX :: u32 where
  "UINT_MAX = 0xFFFFFFFF"

subsection \<open>List primitives\<close>

definition list_add_tail :: "pref \<Rightarrow> pref list \<Rightarrow> pref list" where
  "list_add_tail p q = q @ [p]"

text \<open>\<^verbatim>\<open>list_del_init\<close> unlinks the node from the list it is linked in.\<close>

definition list_del_init :: "pref \<Rightarrow> pref list \<Rightarrow> pref list" where
  "list_del_init p q = remove1 p q"

definition list_empty :: "pref list \<Rightarrow> bool" where
  "list_empty q = (q = [])"

subsection \<open>Default FCFS acquire and release\<close>

definition fcfs_acquire :: "rid \<Rightarrow> sched_state \<Rightarrow> error + (sched_state \<times> bool)" where
  "fcfs_acquire resource_id s =
     (let r = resources s resource_id in
      case owner r of
        None \<Rightarrow>
          Inr (s\<lparr>resources := (resources s)(resource_id := r\<lparr>owner := current s\<rparr>)\<rparr>, True)
      | Some _ \<Rightarrow>
          (case current s of
             None \<Rightarrow> Inl NullDeref
           | Some c \<Rightarrow>
               Inr (s\<lparr>procs := (procs s)(c := (procs s c)\<lparr>status := PROCESS_BLOCKED\<rparr>),
                      resources := (resources s)
                        (resource_id := r\<lparr>waitqueue := list_add_tail c (waitqueue r)\<rparr>)\<rparr>,
                    False)))"

definition fcfs_release :: "rid \<Rightarrow> sched_state \<Rightarrow> error + sched_state" where
  "fcfs_release resource_id s =
     (let r = resources s resource_id in
      if owner r \<noteq> current s then Inl AssertFail
      else
        (case waitqueue r of
           [] \<Rightarrow> Inr (s\<lparr>resources := (resources s)(resource_id := r\<lparr>owner := None\<rparr>)\<rparr>)
         | waiter # _ \<Rightarrow>
             if status (procs s waiter) \<noteq> PROCESS_BLOCKED then Inl AssertFail
             else
               Inr (s\<lparr>procs := (procs s)(waiter := (procs s waiter)\<lparr>status := PROCESS_READY\<rparr>),
                      readyqueue := list_add_tail waiter (readyqueue s),
                      resources := (resources s)
                        (resource_id :=
                           \<lparr>owner = None, waitqueue = list_del_init waiter (waitqueue r)\<rparr>)\<rparr>)))"

subsection \<open>FCFS scheduler\<close>

definition fcfs_pick_next :: "sched_state \<Rightarrow> error + (sched_state \<times> pref option)" where
  "fcfs_pick_next s =
     (case readyqueue s of
        [] \<Rightarrow> Inr (s, None)
      | next # _ \<Rightarrow> Inr (s\<lparr>readyqueue := list_del_init next (readyqueue s)\<rparr>, Some next))"

definition fcfs_schedule :: "sched_state \<Rightarrow> error + (sched_state \<times> pref option)" where
  "fcfs_schedule s =
     (case current s of
        None \<Rightarrow> fcfs_pick_next s
      | Some c \<Rightarrow>
          if status (procs s c) = PROCESS_BLOCKED then fcfs_pick_next s
          else if age (procs s c) < lifespan (procs s c) then Inr (s, Some c)
          else fcfs_pick_next s)"

subsection \<open>STCF scheduler\<close>

text \<open>
  The scan of the branch that runs while \<^verbatim>\<open>current\<close> has lifetime left: it compares
  remaining times and stores \<^verbatim>\<open>tmp->lifespan\<close> in \<^verbatim>\<open>min\<close>.
\<close>

fun stcf_scan_running ::
  "(pref \<Rightarrow> process) \<Rightarrow> pref list \<Rightarrow> u32 \<Rightarrow> pref option \<Rightarrow> u32 \<times> pref option" where
  "stcf_scan_running ps [] mn nx = (mn, nx)"
| "stcf_scan_running ps (tmp # ts) mn nx =
     (if lifespan (ps tmp) - age (ps tmp) < mn
      then stcf_scan_running ps ts (lifespan (ps tmp)) (Some tmp)
      else stcf_scan_running ps ts mn nx)"

text \<open>The scan under \<^verbatim>\<open>pick_next\<close>: it stores the remaining time in \<^verbatim>\<open>min\<close>.\<close>

fun stcf_scan_pick ::
  "(pref \<Rightarrow> process) \<Rightarrow> pref list \<Rightarrow> u32 \<Rightarrow> pref option \<Rightarrow> u32 \<times> pref option" where
  "stcf_scan_pick ps [] mn nx = (mn, nx)"
| "stcf_scan_pick ps (tmp # ts) mn nx =
     (if lifespan (ps tmp) - age (ps tmp) < mn
      then stcf_scan_pick ps ts (lifespan (ps tmp) - age (ps tmp)) (Some tmp)
      else stcf_scan_pick ps ts mn nx)"

definition stcf_pick_next :: "sched_state \<Rightarrow> error + (sched_state \<times> pref option)" where
  "stcf_pick_next s =
     (if \<not> list_empty (readyqueue s) then
        (case snd (stcf_scan_pick (procs s) (readyqueue s) UINT_MAX None) of
           None \<Rightarrow> Inl NullDeref
         | Some next \<Rightarrow>
             Inr (s\<lparr>readyqueue := list_del_init next (readyqueue s)\<rparr>, Some next))
      else if current s = None \<and> list_empty (readyqueue s) then Inr (s, None)
      else Inr (s, None))"

definition stcf_schedule :: "sched_state \<Rightarrow> error + (sched_state \<times> pref option)" where
  "stcf_schedule s =
     (case current s of
        None \<Rightarrow> stcf_pick_next s
      | Some c \<Rightarrow>
          if status (procs s c) = PROCESS_BLOCKED then stcf_pick_next s
          else if age (procs s c) < lifespan (procs s c) then
            (if \<not> list_empty (readyqueue s) then
               (case stcf_scan_running (procs s) (readyqueue s) UINT_MAX None of
                  (mn, nx) \<Rightarrow>
                    if lifespan (procs s c) - age (procs s c) > mn then
                      (case nx of
                         None \<Rightarrow> Inl NullDeref
                       | Some next \<Rightarrow>
                           Inr (s\<lparr>readyqueue :=
                                    list_del_init next (list_add_tail c (readyqueue s))\<rparr>,
                                Some next))
                    else Inr (s, Some c))
             else Inr (s, Some c))
          else if age (procs s c) = lifespan (procs s c) then stcf_pick_next s
          else Inr (s, None))"

subsection \<open>Round-robin scheduler\<close>

definition rr_pick_next :: "sched_state \<Rightarrow> error + (sched_state \<times> pref option)" where
  "rr_pick_next s =
     (case readyqueue s of
        [] \<Rightarrow> Inr (s, None)
      | next # _ \<Rightarrow> Inr (s\<lparr>readyqueue := list_del_init next (readyqueue s)\<rparr>, Some next))"

definition rr_schedule :: "sched_state \<Rightarrow> error + (sched_state \<times> pref option)" where
  "rr_schedule s =
     (case current s of
        None \<Rightarrow> rr_pick_next s
      | Some c \<Rightarrow>
          if status (procs s c) = PROCESS_BLOCKED then rr_pick_next s
          else if age (procs s c) < lifespan (procs s c)
          then rr_pick_next (s\<lparr>readyqueue := list_add_tail c (readyqueue s)\<rparr>)
          else rr_pick_next s)"

subsection \<open>Priority scheduler\<close>

fun prio_scan ::
  "(pref \<Rightarrow> process) \<Rightarrow> pref list \<Rightarrow> u32 \<Rightarrow> pref option \<Rightarrow> u32 \<times> pref option" where
  "prio_scan ps [] mx nx = (mx, nx)"
| "prio_scan ps (tmp # ts) mx nx =
     (if prio (ps tmp) \<ge> mx
      then prio_scan ps ts (prio (ps tmp)) (Some tmp)
      else prio_scan ps ts mx nx)"

definition prio_pick_next :: "sched_state \<Rightarrow> error + (sched_state \<times> pref option)" where
  "prio_pick_next s =
     (if \<not> list_empty (readyqueue s) then
        (case snd (prio_scan (procs s) (readyqueue s) 0 None) of
           None \<Rightarrow> Inl NullDeref
         | Some next \<Rightarrow>
             Inr (s\<lparr>readyqueue := list_del_init next (readyqueue s)\<rparr>, Some next))
      else Inr (s, None))"

definition prio_schedule :: "sched_state \<Rightarrow> error + (sched_state \<times> pref option)" where
  "prio_schedule s =
     (case current s of
        None \<Rightarrow> prio_pick_next s
      | Some c \<Rightarrow>
          if status (procs s c) = PROCESS_BLOCKED then prio_pick_next s
          else if age (procs s c) < lifespan (procs s c)
          then prio_pick_next (s\<lparr>readyqueue := list_add_tail c (readyqueue s)\<rparr>)
          else prio_pick_next s)"

subsection \<open>Priority scheduler with aging\<close>

text \<open>
  \<^verbatim>\<open>MAX_PRIO\<close> is a macro of process.h, which is not among the sources: it is a
  parameter of the functions that use it.
\<close>

fun pa_scan ::
  "u32 \<Rightarrow> pref list \<Rightarrow> (pref \<Rightarrow> process) \<Rightarrow> u32 \<Rightarrow> pref option \<Rightarrow>
     (pref \<Rightarrow> process) \<times> u32 \<times> pref option" where
  "pa_scan MAX_PRIO [] ps mx nx = (ps, mx, nx)"
| "pa_scan MAX_PRIO (tmp # ts) ps mx nx =
     (let ps' = ps(tmp := (ps tmp)\<lparr>prio := prio (ps tmp) + 1\<rparr>) in
      if prio (ps' tmp) > mx \<and> prio (ps' tmp) < MAX_PRIO
      then pa_scan MAX_PRIO ts ps' (prio (ps' tmp)) (Some tmp)
      else pa_scan MAX_PRIO ts ps' mx nx)"

definition pa_pick_next ::
  "u32 \<Rightarrow> sched_state \<Rightarrow> error + (sched_state \<times> pref option)" where
  "pa_pick_next MAX_PRIO s =
     (if \<not> list_empty (readyqueue s) then
        (case pa_scan MAX_PRIO (readyqueue s) (procs s) 0 None of
           (ps, mx, nx) \<Rightarrow>
             (case nx of
                None \<Rightarrow> Inl NullDeref
              | Some next \<Rightarrow>
                  Inr (s\<lparr>procs := ps(next := (ps next)\<lparr>prio := prio_orig (ps next)\<rparr>),
                         readyqueue := list_del_init next (readyqueue s)\<rparr>,
                       Some next)))
      else Inr (s, None))"

definition pa_schedule ::
  "u32 \<Rightarrow> sched_state \<Rightarrow> error + (sched_state \<times> pref option)" where
  "pa_schedule MAX_PRIO s =
     (case current s of
        None \<Rightarrow> pa_pick_next MAX_PRIO s
      | Some c \<Rightarrow>
          if status (procs s c) = PROCESS_BLOCKED then pa_pick_next MAX_PRIO s
          else if age (procs s c) < lifespan (procs s c)
          then pa_pick_next MAX_PRIO (s\<lparr>readyqueue := list_add_tail c (readyqueue s)\<rparr>)
          else pa_pick_next MAX_PRIO s)"

text \<open>
  The ready queue as the scan of \<^verbatim>\<open>rr_schedule\<close>, \<^verbatim>\<open>prio_schedule\<close> and
  \<^verbatim>\<open>pa_schedule\<close> sees it: the current process is at its tail when it is not blocked
  and has lifetime left.
\<close>

definition requeued :: "sched_state \<Rightarrow> pref list" where
  "requeued s =
     (case current s of
        None \<Rightarrow> readyqueue s
      | Some c \<Rightarrow>
          if status (procs s c) = PROCESS_BLOCKED then readyqueue s
          else if age (procs s c) < lifespan (procs s c)
          then list_add_tail c (readyqueue s)
          else readyqueue s)"

subsection \<open>Priority ceiling protocol\<close>

definition pcp_acquire :: "u32 \<Rightarrow> rid \<Rightarrow> sched_state \<Rightarrow> error + (sched_state \<times> bool)" where
  "pcp_acquire MAX_PRIO resource_id s =
     (let r = resources s resource_id in
      case owner r of
        None \<Rightarrow>
          (case current s of
             None \<Rightarrow> Inl NullDeref
           | Some c \<Rightarrow>
               Inr (s\<lparr>procs := (procs s)(c := (procs s c)\<lparr>prio := MAX_PRIO\<rparr>),
                      resources := (resources s)(resource_id := r\<lparr>owner := Some c\<rparr>)\<rparr>,
                    True))
      | Some _ \<Rightarrow>
          (case current s of
             None \<Rightarrow> Inl NullDeref
           | Some c \<Rightarrow>
               Inr (s\<lparr>procs := (procs s)(c := (procs s c)\<lparr>status := PROCESS_BLOCKED\<rparr>),
                      resources := (resources s)
                        (resource_id := r\<lparr>waitqueue := list_add_tail c (waitqueue r)\<rparr>)\<rparr>,
                    False)))"

text \<open>
  The scan of \<^verbatim>\<open>pcp_release\<close>: \<^verbatim>\<open>waiter\<close> starts at the first entry; an entry of
  higher priority than the waiter so far becomes the waiter and has its priority reset,
  and the later comparisons read the reset priority.
\<close>

fun pcp_scan ::
  "pref list \<Rightarrow> (pref \<Rightarrow> process) \<Rightarrow> pref \<Rightarrow> (pref \<Rightarrow> process) \<times> pref" where
  "pcp_scan [] ps waiter = (ps, waiter)"
| "pcp_scan (tmp # ts) ps waiter =
     (if prio (ps tmp) > prio (ps waiter)
      then pcp_scan ts (ps(tmp := (ps tmp)\<lparr>prio := prio_orig (ps tmp)\<rparr>)) tmp
      else pcp_scan ts ps waiter)"

definition pcp_release :: "rid \<Rightarrow> sched_state \<Rightarrow> error + sched_state" where
  "pcp_release resource_id s =
     (let r = resources s resource_id in
      if owner r \<noteq> current s then Inl AssertFail
      else
        (case waitqueue r of
           [] \<Rightarrow> Inr (s\<lparr>resources := (resources s)(resource_id := r\<lparr>owner := None\<rparr>)\<rparr>)
         | first # _ \<Rightarrow>
             (case pcp_scan (waitqueue r) (procs s) first of
                (ps, waiter) \<Rightarrow>
                  if status (ps waiter) \<noteq> PROCESS_BLOCKED then Inl AssertFail
                  else
                    Inr (s\<lparr>procs := ps(waiter := (ps waiter)\<lparr>status := PROCESS_READY\<rparr>),
                           readyqueue := list_add_tail waiter (readyqueue s),
                           resources := (resources s)
                             (resource_id :=
                                \<lparr>owner = None,
                                 waitqueue = list_del_init waiter (waitqueue r)\<rparr>)\<rparr>))))"

subsection \<open>Priority inheritance protocol\<close>

definition pip_acquire :: "rid \<Rightarrow> sched_state \<Rightarrow> error + (sched_state \<times> bool)" where
  "pip_acquire resource_id s =
     (let r = resources s resource_id in
      case owner r of
        None \<Rightarrow>
          Inr (s\<lparr>resources := (resources s)(resource_id := r\<lparr>owner := current s\<rparr>)\<rparr>, True)
      | Some ow \<Rightarrow>
          (case current s of
             None \<Rightarrow> Inl NullDeref
           | Some c \<Rightarrow>
               (let ps1 = (procs s)(c := (procs s c)\<lparr>status := PROCESS_BLOCKED\<rparr>);
                    ps2 = (if prio (ps1 c) > prio (ps1 ow)
                           then ps1(ow := (ps1 ow)\<lparr>prio := prio (ps1 c)\<rparr>)
                           else ps1)
                in Inr (s\<lparr>procs := ps2,
                          resources := (resources s)
                            (resource_id := r\<lparr>waitqueue := list_add_tail c (waitqueue r)\<rparr>)\<rparr>,
                        False))))"

fun pip_scan ::
  "pref list \<Rightarrow> (pref \<Rightarrow> process) \<Rightarrow> pref \<Rightarrow> (pref \<Rightarrow> process) \<times> pref" where
  "pip_scan [] ps waiter = (ps, waiter)"
| "pip_scan (tmp # ts) ps waiter =
     (if prio (ps tmp) > prio (ps waiter)
      then pip_scan ts (ps(tmp := (ps tmp)\<lparr>prio := prio_orig (ps tmp)\<rparr>)) tmp
      else pip_scan ts ps waiter)"

definition pip_release :: "rid \<Rightarrow> sched_state \<Rightarrow> error + sched_state" where
  "pip_release resource_id s =
     (let r = resources s resource_id in
      if owner r \<noteq> current s then Inl AssertFail
      else
        (case waitqueue r of
           [] \<Rightarrow> Inr (s\<lparr>resources := (resources s)(resource_id := r\<lparr>owner := None\<rparr>)\<rparr>)
         | first # _ \<Rightarrow>
             (case pip_scan (waitqueue r) (procs s) first of
                (ps, waiter) \<Rightarrow>
                  if status (ps waiter) \<noteq> PROCESS_BLOCKED then Inl AssertFail
                  else
                    Inr (s\<lparr>procs := ps(waiter := (ps waiter)\<lparr>status := PROCESS_READY\<rparr>),
                           readyqueue := list_add_tail waiter (readyqueue s),
                           resources := (resources s)
                             (resource_id :=
                                \<lparr>owner = None,
                                 waitqueue = list_del_init waiter (waitqueue r)\<rparr>)\<rparr>))))"

subsection \<open>The policy tables\<close>

text \<open>
  \<^verbatim>\<open>struct scheduler\<close> (sched.h) is a table of callbacks; the two priority-inversion
  policies fill in \<^verbatim>\<open>name\<close>, \<^verbatim>\<open>acquire\<close>, \<^verbatim>\<open>release\<close> and \<^verbatim>\<open>schedule\<close>.
\<close>

record scheduler =
  name :: string
  acquire :: "rid \<Rightarrow> sched_state \<Rightarrow> error + (sched_state \<times> bool)"
  release :: "rid \<Rightarrow> sched_state \<Rightarrow> error + sched_state"
  schedule :: "sched_state \<Rightarrow> error + (sched_state \<times> pref option)"

definition pcp_scheduler :: "u32 \<Rightarrow> scheduler" where
  "pcp_scheduler MAX_PRIO =
     \<lparr>name = ''Priority + PCP Protocol'',
      acquire = pcp_acquire MAX_PRIO,
      release = pcp_release,
      schedule = prio_schedule\<rparr>"

definition pip_scheduler :: scheduler where
  "pip_scheduler =
     \<lparr>name = ''Priority + PIP Protocol'',
      acquire = pip_acquire,
      release = pip_release,
      schedule = prio_schedule\<rparr>"

subsection \<open>The simulation driver\<close>

text \<open>
  Modelled from the spec: the simulation driver is framework code that is not among the
  sources. The spec (section 2) says that each tick it calls \<^verbatim>\<open>schedule()\<close> to pick the
  running process and advances its age; the picked process becomes \<^verbatim>\<open>current\<close>. The
  spec's data model has one running process at most, so the process picked is marked
  running and a previously running one is marked ready.
\<close>

definition tick ::
  "(sched_state \<Rightarrow> error + (sched_state \<times> pref option)) \<Rightarrow> sched_state \<Rightarrow>
     error + (sched_state \<times> pref option)" where
  "tick sched s =
     (case sched s of
        Inl e \<Rightarrow> Inl e
      | Inr (s1, picked) \<Rightarrow>
          (let ps1 =
                 (case current s1 of
                    None \<Rightarrow> procs s1
                  | Some prev \<Rightarrow>
                      if status (procs s1 prev) = PROCESS_RUNNING
                      then (procs s1)(prev := (procs s1 prev)\<lparr>status := PROCESS_READY\<rparr>)
                      else procs s1)
           in case picked of
                None \<Rightarrow> Inr (s1\<lparr>procs := ps1, current := None\<rparr>, None)
              | Some p \<Rightarrow>
                  Inr (s1\<lparr>procs := ps1(p := (ps1 p)\<lparr>status := PROCESS_RUNNING,
                                                     age := age (ps1 p) + 1\<rparr>),
                         current := Some p\<rparr>,
                       Some p)))"

text \<open>The processes picked in \<open>n\<close> consecutive ticks.\<close>

fun run_ticks ::
  "(sched_state \<Rightarrow> error + (sched_state \<times> pref option)) \<Rightarrow> nat \<Rightarrow> sched_state \<Rightarrow>
     error + pref option list" where
  "run_ticks sched 0 s = Inr []"
| "run_ticks sched (Suc n) s =
     (case tick sched s of
        Inl e \<Rightarrow> Inl e
      | Inr (s1, picked) \<Rightarrow>
          (case run_ticks sched n s1 of
             Inl e \<Rightarrow> Inl e
           | Inr picks \<Rightarrow> Inr (picked # picks)))"

subsection \<open>Example states\<close>

definition no_process :: process where
  "no_process =
     \<lparr>status = PROCESS_TERMINATED, age = 0, lifespan = 0, prio = 0, prio_orig = 0\<rparr>"

definition free_resource :: resource where
  "free_resource = \<lparr>owner = None, waitqueue = []\<rparr>"

text \<open>Processes A (reference 0) and B (reference 1), lifespan 3, arrived in this order.\<close>

definition ab_state :: sched_state where
  "ab_state =
     \<lparr>procs = (\<lambda>_. no_process)
        (0 := \<lparr>status = PROCESS_READY, age = 0, lifespan = 3, prio = 0, prio_orig = 0\<rparr>,
         1 := \<lparr>status = PROCESS_READY, age = 0, lifespan = 3, prio = 0, prio_orig = 0\<rparr>),
      current = None,
      readyqueue = [0, 1],
      resources = (\<lambda>_. free_resource)\<rparr>"

text \<open>
  Process 0 (lifespan 20, age 12) runs and owns resource 0; process 1 (lifespan 10)
  blocked on resource 0 at age 8.
\<close>

definition stcf_release_state :: sched_state where
  "stcf_release_state =
     \<lparr>procs = (\<lambda>_. no_process)
        (0 := \<lparr>status = PROCESS_RUNNING, age = 12, lifespan = 20, prio = 0, prio_orig = 0\<rparr>,
         1 := \<lparr>status = PROCESS_BLOCKED, age = 8, lifespan = 10, prio = 0, prio_orig = 0\<rparr>),
      current = Some 0,
      readyqueue = [],
      resources = (\<lambda>_. free_resource)(0 := \<lparr>owner = Some 0, waitqueue = [1]\<rparr>)\<rparr>"

text \<open>The state after process 0 has released resource 0 in \<open>stcf_release_state\<close>.\<close>

definition stcf_woken_state :: sched_state where
  "stcf_woken_state =
     \<lparr>procs = (\<lambda>_. no_process)
        (0 := \<lparr>status = PROCESS_RUNNING, age = 12, lifespan = 20, prio = 0, prio_orig = 0\<rparr>,
         1 := \<lparr>status = PROCESS_READY, age = 8, lifespan = 10, prio = 0, prio_orig = 0\<rparr>),
      current = Some 0,
      readyqueue = [1],
      resources = (\<lambda>_. free_resource)(0 := \<lparr>owner = None, waitqueue = []\<rparr>)\<rparr>"

text \<open>Two ready processes of priorities 0 and 63, none running.\<close>

definition aging_state :: sched_state where
  "aging_state =
     \<lparr>procs = (\<lambda>_. no_process)
        (0 := \<lparr>status = PROCESS_READY, age = 0, lifespan = 4, prio = 0, prio_orig = 0\<rparr>,
         1 := \<lparr>status = PROCESS_READY, age = 0, lifespan = 4, prio = 63, prio_orig = 63\<rparr>),
      current = None,
      readyqueue = [0, 1],
      resources = (\<lambda>_. free_resource)\<rparr>"

text \<open>One ready process of priority 63, none running.\<close>

definition ceiling_state :: sched_state where
  "ceiling_state =
     \<lparr>procs = (\<lambda>_. no_process)
        (0 := \<lparr>status = PROCESS_READY, age = 0, lifespan = 4, prio = 63, prio_orig = 63\<rparr>),
      current = None,
      readyqueue = [0],
      resources = (\<lambda>_. free_resource)\<rparr>"

text \<open>Three ready processes; processes 0 and 1 share the highest priority, 3.\<close>

definition tie_state :: sched_state where
  "tie_state =
     \<lparr>procs = (\<lambda>_. no_process)
        (0 := \<lparr>status = PROCESS_READY, age = 0, lifespan = 4, prio = 3, prio_orig = 3\<rparr>,
         1 := \<lparr>status = PROCESS_READY, age = 0, lifespan = 4, prio = 3, prio_orig = 3\<rparr>,
         2 := \<lparr>status = PROCESS_READY, age = 0, lifespan = 4, prio = 1, prio_orig = 1\<rparr>),
      current = None,
      readyqueue = [0, 1, 2],
      resources = (\<lambda>_. free_resource)\<rparr>"

text \<open>
  Process 0 runs and owns resource 0 with its priority at 64; processes 1 and 2 wait for
  resource 0 in this order.
\<close>

definition two_waiters_state :: sched_state where
  "two_waiters_state =
     \<lparr>procs = (\<lambda>_. no_process)
        (0 := \<lparr>status = PROCESS_RUNNING, age = 1, lifespan = 4, prio = 64, prio_orig = 2\<rparr>,
         1 := \<lparr>status = PROCESS_BLOCKED, age = 1, lifespan = 4, prio = 1, prio_orig = 1\<rparr>,
         2 := \<lparr>status = PROCESS_BLOCKED, age = 1, lifespan = 4, prio = 7, prio_orig = 3\<rparr>),
      current = Some 0,
      readyqueue = [],
      resources = (\<lambda>_. free_resource)(0 := \<lparr>owner = Some 0, waitqueue = [1, 2]\<rparr>)\<rparr>"


text \<open>
  Process H (reference 1, priority 5) runs and asks for resource 0, which process L
  (reference 0, priority 1) owns.
\<close>

definition inherit_state :: sched_state where
  "inherit_state =
     \<lparr>procs = (\<lambda>_. no_process)
        (0 := \<lparr>status = PROCESS_READY, age = 1, lifespan = 4, prio = 1, prio_orig = 1\<rparr>,
         1 := \<lparr>status = PROCESS_RUNNING, age = 0, lifespan = 4, prio = 5, prio_orig = 5\<rparr>),
      current = Some 1,
      readyqueue = [0],
      resources = (\<lambda>_. free_resource)(0 := \<lparr>owner = Some 0, waitqueue = []\<rparr>)\<rparr>"

text \<open>Process 0 (base priority 2) runs; resource 0 is free.\<close>

definition free_state :: sched_state where
  "free_state =
     \<lparr>procs = (\<lambda>_. no_process)
        (0 := \<lparr>status = PROCESS_RUNNING, age = 0, lifespan = 4, prio = 2, prio_orig = 2\<rparr>),
      current = Some 0,
      readyqueue = [],
      resources = (\<lambda>_. free_resource)\<rparr>"

text \<open>The state after process 0 has taken resource 0 in \<open>free_state\<close> under PCP.\<close>

definition held_state :: sched_state where
  "held_state =
     \<lparr>procs = (\<lambda>_. no_process)
        (0 := \<lparr>status = PROCESS_RUNNING, age = 0, lifespan = 4, prio = 64, prio_orig = 2\<rparr>),
      current = Some 0,
      readyqueue = [],
      resources = (\<lambda>_. free_resource)(0 := \<lparr>owner = Some 0, waitqueue = []\<rparr>)\<rparr>"

text \<open>The state after a tick of the aging scheduler in \<open>aging_state\<close>.\<close>

definition aged_state :: sched_state where
  "aged_state =
     \<lparr>procs = (\<lambda>_. no_process)
        (0 := \<lparr>status = PROCESS_READY, age = 0, lifespan = 4, prio = 0, prio_orig = 0\<rparr>,
         1 := \<lparr>status = PROCESS_READY, age = 0, lifespan = 4, prio = 64, prio_orig = 63\<rparr>),
      current = None,
      readyqueue = [1],
      resources = (\<lambda>_. free_resource)\<rparr>"


section \<open>Properties\<close>

subsection \<open>Auxiliary facts\<close>

lemmas ex_defs = no_process_def free_resource_def

lemma run_ticks_numeral:
  "run_ticks sched (numeral k) s =
     (case tick sched s of
        Inl e \<Rightarrow> Inl e
      | Inr (s1, picked) \<Rightarrow>
          (case run_ticks sched (pred_numeral k) s1 of
             Inl e \<Rightarrow> Inl e
           | Inr picks \<Rightarrow> Inr (picked # picks)))"
  by (simp add: numeral_eq_Suc)

lemma pa_schedule_requeued:
  "pa_schedule MAX_PRIO s = pa_pick_next MAX_PRIO (s\<lparr>readyqueue := requeued s\<rparr>)"
  by (simp add: pa_schedule_def requeued_def split: option.splits)

lemma prio_schedule_requeued:
  "prio_schedule s = prio_pick_next (s\<lparr>readyqueue := requeued s\<rparr>)"
  by (simp add: prio_schedule_def requeued_def split: option.splits)

lemma pa_scan_procs:
  "distinct ts \<Longrightarrow> pa_scan MAX_PRIO ts ps mx nx = (ps', mx', nx') \<Longrightarrow>
   ps' p = (if p \<in> set ts then (ps p)\<lparr>prio := prio (ps p) + 1\<rparr> else ps p)"
proof (induction ts arbitrary: ps mx nx)
  case Nil
  then show ?case by simp
next
  case (Cons t ts)
  let ?ps1 = "ps(t := (ps t)\<lparr>prio := prio (ps t) + 1\<rparr>)"
  from Cons.prems(2) obtain mx1 nx1 where
    rec: "pa_scan MAX_PRIO ts ?ps1 mx1 nx1 = (ps', mx', nx')"
    by (auto simp: Let_def split: if_splits)
  from Cons.prems(1) have d: "distinct ts" and t: "t \<notin> set ts" by simp_all
  from Cons.IH [OF d rec]
  have "ps' p = (if p \<in> set ts then (?ps1 p)\<lparr>prio := prio (?ps1 p) + 1\<rparr> else ?ps1 p)" .
  with t show ?case by auto
qed

lemma pa_scan_no_candidate:
  "distinct ts \<Longrightarrow> \<forall>p \<in> set ts. \<not> prio (ps p) + 1 < MAX_PRIO \<Longrightarrow>
   snd (snd (pa_scan MAX_PRIO ts ps mx nx)) = nx"
proof (induction ts arbitrary: ps mx)
  case Nil
  then show ?case by simp
next
  case (Cons t ts)
  let ?ps1 = "ps(t := (ps t)\<lparr>prio := prio (ps t) + 1\<rparr>)"
  from Cons.prems have d: "distinct ts" and t: "t \<notin> set ts"
    and nt: "\<not> prio (ps t) + 1 < MAX_PRIO" by simp_all
  from Cons.prems t have "\<forall>p \<in> set ts. \<not> prio (?ps1 p) + 1 < MAX_PRIO" by auto
  from Cons.IH [OF d this]
  have "snd (snd (pa_scan MAX_PRIO ts ?ps1 mx nx)) = nx" .
  with nt show ?case by (simp add: Let_def)
qed

lemma pa_scan_selected:
  "distinct ts \<Longrightarrow> pa_scan MAX_PRIO ts ps mx nx = (ps', mx', nx') \<Longrightarrow>
   (nx' = nx \<and> mx' = mx \<and>
      (\<forall>p \<in> set ts. \<not> (mx < prio (ps p) + 1 \<and> prio (ps p) + 1 < MAX_PRIO))) \<or>
   (\<exists>xs n ys. ts = xs @ n # ys \<and> nx' = Some n \<and> mx' = prio (ps n) + 1 \<and>
      mx < prio (ps n) + 1 \<and> prio (ps n) + 1 < MAX_PRIO \<and>
      (\<forall>p \<in> set xs. prio (ps p) + 1 < MAX_PRIO \<longrightarrow> prio (ps p) + 1 < prio (ps n) + 1) \<and>
      (\<forall>p \<in> set ys. prio (ps p) + 1 < MAX_PRIO \<longrightarrow> prio (ps p) + 1 \<le> prio (ps n) + 1))"
proof (induction ts arbitrary: ps mx nx)
  case Nil
  then show ?case by simp
next
  case (Cons t ts)
  let ?ps1 = "ps(t := (ps t)\<lparr>prio := prio (ps t) + 1\<rparr>)"
  from Cons.prems(1) have d: "distinct ts" and t: "t \<notin> set ts" by simp_all
  have same: "prio (?ps1 p) = prio (ps p)" if "p \<in> set ts" for p
    using that t by auto
  show ?case
  proof (cases "mx < prio (ps t) + 1 \<and> prio (ps t) + 1 < MAX_PRIO")
    case True
    with Cons.prems(2) have
      rec: "pa_scan MAX_PRIO ts ?ps1 (prio (ps t) + 1) (Some t) = (ps', mx', nx')"
      by (simp add: Let_def)
    from Cons.IH [OF d rec] show ?thesis
    proof
      assume a: "nx' = Some t \<and> mx' = prio (ps t) + 1 \<and>
        (\<forall>p \<in> set ts. \<not> (prio (ps t) + 1 < prio (?ps1 p) + 1 \<and> prio (?ps1 p) + 1 < MAX_PRIO))"
      with same have "\<forall>p \<in> set ts. prio (ps p) + 1 < MAX_PRIO \<longrightarrow>
          prio (ps p) + 1 \<le> prio (ps t) + 1"
        by (auto simp: not_less)
      with a True have "t # ts = [] @ t # ts \<and> nx' = Some t \<and> mx' = prio (ps t) + 1 \<and>
        mx < prio (ps t) + 1 \<and> prio (ps t) + 1 < MAX_PRIO \<and>
        (\<forall>p \<in> set []. prio (ps p) + 1 < MAX_PRIO \<longrightarrow> prio (ps p) + 1 < prio (ps t) + 1) \<and>
        (\<forall>p \<in> set ts. prio (ps p) + 1 < MAX_PRIO \<longrightarrow> prio (ps p) + 1 \<le> prio (ps t) + 1)"
        by simp
      then show ?thesis by blast
    next
      assume "\<exists>xs n ys. ts = xs @ n # ys \<and> nx' = Some n \<and> mx' = prio (?ps1 n) + 1 \<and>
        prio (ps t) + 1 < prio (?ps1 n) + 1 \<and> prio (?ps1 n) + 1 < MAX_PRIO \<and>
        (\<forall>p \<in> set xs. prio (?ps1 p) + 1 < MAX_PRIO \<longrightarrow>
           prio (?ps1 p) + 1 < prio (?ps1 n) + 1) \<and>
        (\<forall>p \<in> set ys. prio (?ps1 p) + 1 < MAX_PRIO \<longrightarrow>
           prio (?ps1 p) + 1 \<le> prio (?ps1 n) + 1)"
      then obtain xs n ys where h: "ts = xs @ n # ys" "nx' = Some n"
        "mx' = prio (?ps1 n) + 1" "prio (ps t) + 1 < prio (?ps1 n) + 1"
        "prio (?ps1 n) + 1 < MAX_PRIO"
        "\<forall>p \<in> set xs. prio (?ps1 p) + 1 < MAX_PRIO \<longrightarrow> prio (?ps1 p) + 1 < prio (?ps1 n) + 1"
        "\<forall>p \<in> set ys. prio (?ps1 p) + 1 < MAX_PRIO \<longrightarrow> prio (?ps1 p) + 1 \<le> prio (?ps1 n) + 1"
        by blast
      from h(1) have nin: "n \<in> set ts" and xin: "set xs \<subseteq> set ts" and yin: "set ys \<subseteq> set ts"
        by auto
      from same [OF nin] have n: "prio (?ps1 n) = prio (ps n)" .
      from xin same have x: "\<forall>p \<in> set xs. prio (?ps1 p) = prio (ps p)" by blast
      from yin same have y: "\<forall>p \<in> set ys. prio (?ps1 p) = prio (ps p)" by blast
      from h(4) n have tn: "prio (ps t) + 1 < prio (ps n) + 1" by simp
      with True have mxn: "mx < prio (ps n) + 1" by (auto intro: less_trans)
      from h(6) x n have hx: "\<forall>p \<in> set xs. prio (ps p) + 1 < MAX_PRIO \<longrightarrow>
          prio (ps p) + 1 < prio (ps n) + 1" by simp
      from h(7) y n have hy: "\<forall>p \<in> set ys. prio (ps p) + 1 < MAX_PRIO \<longrightarrow>
          prio (ps p) + 1 \<le> prio (ps n) + 1" by simp
      from h(1,2,3,5) n mxn tn hx hy
      have "t # ts = (t # xs) @ n # ys \<and> nx' = Some n \<and> mx' = prio (ps n) + 1 \<and>
        mx < prio (ps n) + 1 \<and> prio (ps n) + 1 < MAX_PRIO \<and>
        (\<forall>p \<in> set (t # xs). prio (ps p) + 1 < MAX_PRIO \<longrightarrow>
           prio (ps p) + 1 < prio (ps n) + 1) \<and>
        (\<forall>p \<in> set ys. prio (ps p) + 1 < MAX_PRIO \<longrightarrow> prio (ps p) + 1 \<le> prio (ps n) + 1)"
        by simp
      then show ?thesis by blast
    qed
  next
    case False
    with Cons.prems(2) have rec: "pa_scan MAX_PRIO ts ?ps1 mx nx = (ps', mx', nx')"
      by (auto simp: Let_def)
    from Cons.IH [OF d rec] show ?thesis
    proof
      assume a: "nx' = nx \<and> mx' = mx \<and>
        (\<forall>p \<in> set ts. \<not> (mx < prio (?ps1 p) + 1 \<and> prio (?ps1 p) + 1 < MAX_PRIO))"
      with same False have "nx' = nx \<and> mx' = mx \<and>
        (\<forall>p \<in> set (t # ts). \<not> (mx < prio (ps p) + 1 \<and> prio (ps p) + 1 < MAX_PRIO))"
        by auto
      then show ?thesis by blast
    next
      assume "\<exists>xs n ys. ts = xs @ n # ys \<and> nx' = Some n \<and> mx' = prio (?ps1 n) + 1 \<and>
        mx < prio (?ps1 n) + 1 \<and> prio (?ps1 n) + 1 < MAX_PRIO \<and>
        (\<forall>p \<in> set xs. prio (?ps1 p) + 1 < MAX_PRIO \<longrightarrow>
           prio (?ps1 p) + 1 < prio (?ps1 n) + 1) \<and>
        (\<forall>p \<in> set ys. prio (?ps1 p) + 1 < MAX_PRIO \<longrightarrow>
           prio (?ps1 p) + 1 \<le> prio (?ps1 n) + 1)"
      then obtain xs n ys where h: "ts = xs @ n # ys" "nx' = Some n"
        "mx' = prio (?ps1 n) + 1" "mx < prio (?ps1 n) + 1"
        "prio (?ps1 n) + 1 < MAX_PRIO"
        "\<forall>p \<in> set xs. prio (?ps1 p) + 1 < MAX_PRIO \<longrightarrow> prio (?ps1 p) + 1 < prio (?ps1 n) + 1"
        "\<forall>p \<in> set ys. prio (?ps1 p) + 1 < MAX_PRIO \<longrightarrow> prio (?ps1 p) + 1 \<le> prio (?ps1 n) + 1"
        by blast
      from h(1) have nin: "n \<in> set ts" and xin: "set xs \<subseteq> set ts" and yin: "set ys \<subseteq> set ts"
        by auto
      from same [OF nin] have n: "prio (?ps1 n) = prio (ps n)" .
      from xin same have x: "\<forall>p \<in> set xs. prio (?ps1 p) = prio (ps p)" by blast
      from yin same have y: "\<forall>p \<in> set ys. prio (?ps1 p) = prio (ps p)" by blast
      from h(4) n have mxn: "mx < prio (ps n) + 1" by simp
      from False mxn have tn: "prio (ps t) + 1 < MAX_PRIO \<longrightarrow>
          prio (ps t) + 1 < prio (ps n) + 1"
        by (auto simp: not_less intro: le_less_trans)
      from h(6) x n have hx: "\<forall>p \<in> set xs. prio (ps p) + 1 < MAX_PRIO \<longrightarrow>
          prio (ps p) + 1 < prio (ps n) + 1" by simp
      from h(7) y n have hy: "\<forall>p \<in> set ys. prio (ps p) + 1 < MAX_PRIO \<longrightarrow>
          prio (ps p) + 1 \<le> prio (ps n) + 1" by simp
      from h(1,2,3,5) n mxn tn hx hy
      have "t # ts = (t # xs) @ n # ys \<and> nx' = Some n \<and> mx' = prio (ps n) + 1 \<and>
        mx < prio (ps n) + 1 \<and> prio (ps n) + 1 < MAX_PRIO \<and>
        (\<forall>p \<in> set (t # xs). prio (ps p) + 1 < MAX_PRIO \<longrightarrow>
           prio (ps p) + 1 < prio (ps n) + 1) \<and>
        (\<forall>p \<in> set ys. prio (ps p) + 1 < MAX_PRIO \<longrightarrow> prio (ps p) + 1 \<le> prio (ps n) + 1)"
        by simp
      then show ?thesis by blast
    qed
  qed
qed

lemma prio_scan_last_max:
  "prio_scan ps ts mx nx = (mx', nx') \<Longrightarrow>
   (mx' = mx \<and> nx' = nx \<and> (\<forall>p \<in> set ts. prio (ps p) < mx)) \<or>
   (\<exists>xs n ys. ts = xs @ n # ys \<and> nx' = Some n \<and> mx' = prio (ps n) \<and> mx \<le> prio (ps n) \<and>
      (\<forall>p \<in> set xs. prio (ps p) \<le> prio (ps n)) \<and>
      (\<forall>p \<in> set ys. prio (ps p) < prio (ps n)))"
proof (induction ts arbitrary: mx nx)
  case Nil
  then show ?case by simp
next
  case (Cons t ts)
  show ?case
  proof (cases "mx \<le> prio (ps t)")
    case True
    with Cons.prems have rec: "prio_scan ps ts (prio (ps t)) (Some t) = (mx', nx')" by simp
    from Cons.IH [OF rec] show ?thesis
    proof
      assume "mx' = prio (ps t) \<and> nx' = Some t \<and> (\<forall>p \<in> set ts. prio (ps p) < prio (ps t))"
      with True have "t # ts = [] @ t # ts \<and> nx' = Some t \<and> mx' = prio (ps t) \<and>
        mx \<le> prio (ps t) \<and> (\<forall>p \<in> set []. prio (ps p) \<le> prio (ps t)) \<and>
        (\<forall>p \<in> set ts. prio (ps p) < prio (ps t))" by simp
      then show ?thesis by blast
    next
      assume "\<exists>xs n ys. ts = xs @ n # ys \<and> nx' = Some n \<and> mx' = prio (ps n) \<and>
        prio (ps t) \<le> prio (ps n) \<and> (\<forall>p \<in> set xs. prio (ps p) \<le> prio (ps n)) \<and>
        (\<forall>p \<in> set ys. prio (ps p) < prio (ps n))"
      then obtain xs n ys where h: "ts = xs @ n # ys" "nx' = Some n" "mx' = prio (ps n)"
        "prio (ps t) \<le> prio (ps n)" "\<forall>p \<in> set xs. prio (ps p) \<le> prio (ps n)"
        "\<forall>p \<in> set ys. prio (ps p) < prio (ps n)" by blast
      with True have "t # ts = (t # xs) @ n # ys \<and> nx' = Some n \<and> mx' = prio (ps n) \<and>
        mx \<le> prio (ps n) \<and> (\<forall>p \<in> set (t # xs). prio (ps p) \<le> prio (ps n)) \<and>
        (\<forall>p \<in> set ys. prio (ps p) < prio (ps n))" by auto
      then show ?thesis by blast
    qed
  next
    case False
    with Cons.prems have rec: "prio_scan ps ts mx nx = (mx', nx')" by simp
    from Cons.IH [OF rec] show ?thesis
    proof
      assume "mx' = mx \<and> nx' = nx \<and> (\<forall>p \<in> set ts. prio (ps p) < mx)"
      with False show ?thesis by auto
    next
      assume "\<exists>xs n ys. ts = xs @ n # ys \<and> nx' = Some n \<and> mx' = prio (ps n) \<and>
        mx \<le> prio (ps n) \<and> (\<forall>p \<in> set xs. prio (ps p) \<le> prio (ps n)) \<and>
        (\<forall>p \<in> set ys. prio (ps p) < prio (ps n))"
      then obtain xs n ys where h: "ts = xs @ n # ys" "nx' = Some n" "mx' = prio (ps n)"
        "mx \<le> prio (ps n)" "\<forall>p \<in> set xs. prio (ps p) \<le> prio (ps n)"
        "\<forall>p \<in> set ys. prio (ps p) < prio (ps n)" by blast
      with False have "t # ts = (t # xs) @ n # ys \<and> nx' = Some n \<and> mx' = prio (ps n) \<and>
        mx \<le> prio (ps n) \<and> (\<forall>p \<in> set (t # xs). prio (ps p) \<le> prio (ps n)) \<and>
        (\<forall>p \<in> set ys. prio (ps p) < prio (ps n))" by auto
      then show ?thesis by blast
    qed
  qed
qed

lemma pcp_scan_frame:
  "pcp_scan ts ps w = (ps', w') \<Longrightarrow> p \<notin> set ts \<Longrightarrow> ps' p = ps p"
  by (induction ts arbitrary: ps w) (auto split: if_splits)

lemma pcp_scan_status:
  "pcp_scan ts ps w = (ps', w') \<Longrightarrow> status (ps' p) = status (ps p)"
proof (induction ts arbitrary: ps w)
  case Nil
  then show ?case by simp
next
  case (Cons t ts)
  show ?case
  proof (cases "prio (ps t) > prio (ps w)")
    case True
    with Cons.prems have "pcp_scan ts (ps(t := (ps t)\<lparr>prio := prio_orig (ps t)\<rparr>)) t = (ps', w')"
      by simp
    from Cons.IH [OF this] show ?thesis by simp
  next
    case False
    with Cons.prems have "pcp_scan ts ps w = (ps', w')" by simp
    from Cons.IH [OF this] show ?thesis .
  qed
qed

lemma pcp_scan_waiter:
  "pcp_scan ts ps w = (ps', w') \<Longrightarrow> w' = w \<or> w' \<in> set ts"
  by (induction ts arbitrary: ps w) (auto split: if_splits)

lemma pcp_scan_eq_pip_scan: "pcp_scan ts ps w = pip_scan ts ps w"
  by (induction ts arbitrary: ps w) simp_all




subsection \<open>STCF preemption\<close>

text \<open>
  Claim C1: under STCF, when the running process has lifetime left and is not blocked, it
  is preempted exactly when a ready process has a strictly smaller remaining time
  (\<open>lifespan - age\<close>), and the ready process of minimum remaining time is then selected.

  \<^verbatim>\<open>stcf_schedule\<close> does not do this. The scan of its running branch
  (\<open>stcf_scan_running\<close>) stores \<^verbatim>\<open>tmp->lifespan\<close> in \<^verbatim>\<open>min\<close>, where the scan
  under \<^verbatim>\<open>pick_next\<close> (\<open>stcf_scan_pick\<close>) stores \<^verbatim>\<open>tmp->lifespan - tmp->age\<close>, so
  the remaining time of \<^verbatim>\<open>current\<close> is compared with a lifespan. Process 1 ran for 8 of
  its 10 ticks and blocked on resource 0; process 0 (12 of 20 ticks done) releases the
  resource, which puts process 1 on the ready queue. At the next tick the ready process
  has remaining time 2, the running process has remaining time 8, and the running
  process is kept.
\<close>

theorem stcf_schedule_keeps_longer_current:
  "fcfs_release 0 stcf_release_state = Inr stcf_woken_state \<and>
   current stcf_woken_state = Some 0 \<and>
   readyqueue stcf_woken_state = [1] \<and>
   lifespan (procs stcf_woken_state 1) - age (procs stcf_woken_state 1) = 2 \<and>
   lifespan (procs stcf_woken_state 0) - age (procs stcf_woken_state 0) = 8 \<and>
   stcf_schedule stcf_woken_state = Inr (stcf_woken_state, Some 0)"
  by (simp add: fcfs_release_def stcf_schedule_def stcf_release_state_def
        stcf_woken_state_def list_empty_def list_del_init_def list_add_tail_def
        UINT_MAX_def ex_defs)

subsection \<open>Priority scheduling with aging\<close>

text \<open>
  Claim C2, as written, says that the per-tick increment keeps the priority of every
  process left in the ready queue strictly below \<^verbatim>\<open>MAX_PRIO\<close>. The scan increments
  \<^verbatim>\<open>tmp->prio\<close> unconditionally; \<^verbatim>\<open>MAX_PRIO\<close> only guards the selection. With
  \<^verbatim>\<open>MAX_PRIO\<close> = 64, a ready process of priority 63 that is not selected is left in the
  ready queue with priority 64.
\<close>

theorem pa_schedule_bound_counterexample:
  "pa_schedule 64 aging_state = Inr (aged_state, Some 0) \<and>
   readyqueue aging_state = [0, 1] \<and>
   prio (procs aging_state 1) < 64 \<and>
   readyqueue aged_state = [1] \<and>
   \<not> prio (procs aged_state 1) < 64"
  by (simp add: pa_schedule_def pa_pick_next_def aging_state_def aged_state_def
        list_empty_def list_del_init_def ex_defs Let_def fun_eq_iff)

text \<open>
  Claim C2, amended: on a tick where some process of the ready queue (with the
  still-runnable current process requeued at its tail) has an incremented priority that
  is non-zero and below \<^verbatim>\<open>MAX_PRIO\<close>, \<^verbatim>\<open>pa_schedule\<close> selects and removes a process
  of that queue and every process left in the ready queue has its priority incremented
  by exactly one (in 32-bit unsigned arithmetic), with no upper bound applied to the
  increment. \<^verbatim>\<open>MAX_PRIO\<close> bounds the selection only: the selected process has an
  incremented priority that is non-zero and strictly below \<^verbatim>\<open>MAX_PRIO\<close>, strictly
  higher than that of every earlier process below \<^verbatim>\<open>MAX_PRIO\<close> and at least that of
  every later process below \<^verbatim>\<open>MAX_PRIO\<close>. Its priority is reset to \<^verbatim>\<open>prio_orig\<close>;
  no other field, no process outside the queue, and neither \<^verbatim>\<open>current\<close> nor the
  resources change.
\<close>

theorem pa_schedule_ages_ready_queue:
  assumes dist: "distinct (requeued s)"
    and cand: "\<exists>p \<in> set (requeued s). 0 < prio (procs s p) + 1 \<and> prio (procs s p) + 1 < MAX_PRIO"
  shows "\<exists>s' xs n ys. pa_schedule MAX_PRIO s = Inr (s', Some n) \<and>
           n \<in> set (requeued s) \<and>
           readyqueue s' = remove1 n (requeued s) \<and>
           (\<forall>p \<in> set (readyqueue s'). prio (procs s' p) = prio (procs s p) + 1) \<and>
           prio (procs s' n) = prio_orig (procs s n) \<and>
           requeued s = xs @ n # ys \<and>
           readyqueue s' = xs @ ys \<and>
           0 < prio (procs s n) + 1 \<and>
           prio (procs s n) + 1 < MAX_PRIO \<and>
           (\<forall>p \<in> set xs. prio (procs s p) + 1 < MAX_PRIO \<longrightarrow>
              prio (procs s p) + 1 < prio (procs s n) + 1) \<and>
           (\<forall>p \<in> set ys. prio (procs s p) + 1 < MAX_PRIO \<longrightarrow>
              prio (procs s p) + 1 \<le> prio (procs s n) + 1) \<and>
           (\<forall>p \<in> set (readyqueue s').
              procs s' p = (procs s p)\<lparr>prio := prio (procs s p) + 1\<rparr>) \<and>
           procs s' n = (procs s n)\<lparr>prio := prio_orig (procs s n)\<rparr> \<and>
           (\<forall>p. p \<notin> set (requeued s) \<longrightarrow> procs s' p = procs s p) \<and>
           current s' = current s \<and>
           resources s' = resources s"
proof -
  obtain ps mx nx where scan: "pa_scan MAX_PRIO (requeued s) (procs s) 0 None = (ps, mx, nx)"
    by (cases "pa_scan MAX_PRIO (requeued s) (procs s) 0 None")
  from pa_scan_selected [OF dist scan] cand obtain xs n ys where
    split: "requeued s = xs @ n # ys" and nx: "nx = Some n"
    and pos: "0 < prio (procs s n) + 1" and below: "prio (procs s n) + 1 < MAX_PRIO"
    and before: "\<forall>p \<in> set xs. prio (procs s p) + 1 < MAX_PRIO \<longrightarrow>
        prio (procs s p) + 1 < prio (procs s n) + 1"
    and after: "\<forall>p \<in> set ys. prio (procs s p) + 1 < MAX_PRIO \<longrightarrow>
        prio (procs s p) + 1 \<le> prio (procs s n) + 1"
    by blast
  from split have n: "n \<in> set (requeued s)" by simp
  from split have ne: "requeued s \<noteq> []" by simp
  let ?s' = "s\<lparr>procs := ps(n := (ps n)\<lparr>prio := prio_orig (ps n)\<rparr>),
                readyqueue := remove1 n (requeued s)\<rparr>"
  from ne scan nx have res: "pa_schedule MAX_PRIO s = Inr (?s', Some n)"
    by (simp add: pa_schedule_requeued pa_pick_next_def list_empty_def list_del_init_def)
  have rq: "readyqueue ?s' = remove1 n (requeued s)" by simp
  from dist split have "n \<notin> set xs" by simp
  then have "remove1 n (xs @ n # ys) = xs @ ys" by (simp add: remove1_append)
  with split have rq2: "readyqueue ?s' = xs @ ys" by simp
  have rec: "procs ?s' p = (procs s p)\<lparr>prio := prio (procs s p) + 1\<rparr>"
    if "p \<in> set (readyqueue ?s')" for p
  proof -
    from that dist have "p \<noteq> n" and "p \<in> set (requeued s)" by auto
    with pa_scan_procs [OF dist scan, of p] show ?thesis by simp
  qed
  then have agedrec: "\<forall>p \<in> set (readyqueue ?s').
      procs ?s' p = (procs s p)\<lparr>prio := prio (procs s p) + 1\<rparr>" by blast
  have "prio (procs ?s' p) = prio (procs s p) + 1" if "p \<in> set (readyqueue ?s')" for p
    using rec [OF that] by simp
  then have aged: "\<forall>p \<in> set (readyqueue ?s'). prio (procs ?s' p) = prio (procs s p) + 1"
    by blast
  from pa_scan_procs [OF dist scan, of n] n
  have resetrec: "procs ?s' n = (procs s n)\<lparr>prio := prio_orig (procs s n)\<rparr>" by simp
  then have reset: "prio (procs ?s' n) = prio_orig (procs s n)" by simp
  have "procs ?s' p = procs s p" if "p \<notin> set (requeued s)" for p
  proof -
    from that n have "p \<noteq> n" by auto
    with pa_scan_procs [OF dist scan, of p] that show ?thesis by simp
  qed
  then have frame: "\<forall>p. p \<notin> set (requeued s) \<longrightarrow> procs ?s' p = procs s p" by blast
  have cur: "current ?s' = current s" and rs: "resources ?s' = resources s" by simp_all
  from res n rq aged reset split rq2 pos below before after agedrec resetrec frame cur rs
  show ?thesis by blast
qed

theorem pa_schedule_ages_ready_queue_witness:
  "\<exists>s' xs n ys. pa_schedule 64 aging_state = Inr (s', Some n) \<and>
      n \<in> set (requeued aging_state) \<and>
      readyqueue s' = remove1 n (requeued aging_state) \<and>
      (\<forall>p \<in> set (readyqueue s'). prio (procs s' p) = prio (procs aging_state p) + 1) \<and>
      prio (procs s' n) = prio_orig (procs aging_state n) \<and>
      requeued aging_state = xs @ n # ys \<and>
      readyqueue s' = xs @ ys \<and>
      0 < prio (procs aging_state n) + 1 \<and>
      prio (procs aging_state n) + 1 < 64"
proof -
  have dist: "distinct (requeued aging_state)"
    by (simp add: requeued_def aging_state_def)
  have "0 \<in> set (requeued aging_state) \<and> 0 < prio (procs aging_state 0) + 1 \<and>
        prio (procs aging_state 0) + 1 < 64"
    by (simp add: requeued_def aging_state_def)
  then have cand: "\<exists>p \<in> set (requeued aging_state).
      0 < prio (procs aging_state p) + 1 \<and> prio (procs aging_state p) + 1 < 64"
    by blast
  from pa_schedule_ages_ready_queue [OF dist cand] show ?thesis by blast
qed

text \<open>
  Claim C9: when the ready queue scanned by \<^verbatim>\<open>pa_schedule\<close> is not empty and every
  process in it has an incremented priority of \<^verbatim>\<open>MAX_PRIO\<close> or more, no candidate is
  selected and \<^verbatim>\<open>next->prio\<close> dereferences \<^verbatim>\<open>NULL\<close>; so a run of \<^verbatim>\<open>pa_schedule\<close>
  on a non-empty queue that does not end in that dereference has a ready process whose
  incremented priority is strictly below \<^verbatim>\<open>MAX_PRIO\<close>.
\<close>

theorem pa_schedule_null_deref:
  assumes ne: "requeued s \<noteq> []"
    and dist: "distinct (requeued s)"
  shows "((\<forall>p \<in> set (requeued s). MAX_PRIO \<le> prio (procs s p) + 1) \<longrightarrow>
            pa_schedule MAX_PRIO s = Inl NullDeref) \<and>
         (pa_schedule MAX_PRIO s \<noteq> Inl NullDeref \<longrightarrow>
            (\<exists>p \<in> set (requeued s). prio (procs s p) + 1 < MAX_PRIO))"
proof -
  have deref: "pa_schedule MAX_PRIO s = Inl NullDeref"
    if "\<forall>p \<in> set (requeued s). MAX_PRIO \<le> prio (procs s p) + 1"
  proof -
    from that have "\<forall>p \<in> set (requeued s). \<not> prio (procs s p) + 1 < MAX_PRIO"
      by (simp add: not_less)
    from pa_scan_no_candidate [OF dist this]
    have "snd (snd (pa_scan MAX_PRIO (requeued s) (procs s) 0 None)) = None" .
    then obtain ps mx where "pa_scan MAX_PRIO (requeued s) (procs s) 0 None = (ps, mx, None)"
      by (cases "pa_scan MAX_PRIO (requeued s) (procs s) 0 None") simp
    with ne show ?thesis
      by (simp add: pa_schedule_requeued pa_pick_next_def list_empty_def)
  qed
  have needed: "\<exists>p \<in> set (requeued s). prio (procs s p) + 1 < MAX_PRIO"
    if ok: "pa_schedule MAX_PRIO s \<noteq> Inl NullDeref"
  proof (rule ccontr)
    assume "\<not> (\<exists>p \<in> set (requeued s). prio (procs s p) + 1 < MAX_PRIO)"
    then have "\<forall>p \<in> set (requeued s). MAX_PRIO \<le> prio (procs s p) + 1"
      by (simp add: not_less)
    from deref [OF this] ok show False by simp
  qed
  from deref needed show ?thesis by blast
qed

theorem pa_schedule_null_deref_witness:
  "pa_schedule 64 ceiling_state = Inl NullDeref \<and>
   pa_schedule 64 aging_state = Inr (aged_state, Some 0) \<and>
   (\<exists>p \<in> set (requeued aging_state). prio (procs aging_state p) + 1 < 64)"
proof -
  have ne: "requeued ceiling_state \<noteq> []"
    and dist: "distinct (requeued ceiling_state)"
    and all: "\<forall>p \<in> set (requeued ceiling_state). 64 \<le> prio (procs ceiling_state p) + 1"
    by (simp_all add: requeued_def ceiling_state_def)
  from pa_schedule_null_deref [OF ne dist, of 64] all
  have a: "pa_schedule 64 ceiling_state = Inl NullDeref" by blast
  have ne2: "requeued aging_state \<noteq> []"
    and dist2: "distinct (requeued aging_state)"
    by (simp_all add: requeued_def aging_state_def)
  have run: "pa_schedule 64 aging_state = Inr (aged_state, Some 0)"
    by (simp add: pa_schedule_def pa_pick_next_def aging_state_def aged_state_def
        list_empty_def list_del_init_def ex_defs Let_def fun_eq_iff)
  then have "pa_schedule 64 aging_state \<noteq> Inl NullDeref" by simp
  with pa_schedule_null_deref [OF ne2 dist2, of 64]
  have b: "\<exists>p \<in> set (requeued aging_state). prio (procs aging_state p) + 1 < 64" by blast
  from a run b show ?thesis by blast
qed

subsection \<open>Priority scheduling\<close>

text \<open>
  Claim C4, as written, says that among several ready processes of the highest priority
  the one met first in queue order is selected. The scan of \<^verbatim>\<open>prio_schedule\<close> compares
  with \<^verbatim>\<open>>=\<close>, so a later process of equal priority replaces an earlier one: with
  priorities 3, 3, 1 in queue order, the second process is selected.
\<close>

theorem prio_schedule_tie_counterexample:
  "requeued tie_state = [0, 1, 2] \<and>
   prio (procs tie_state 0) = 3 \<and> prio (procs tie_state 1) = 3 \<and>
   prio (procs tie_state 2) = 1 \<and>
   prio_schedule tie_state = Inr (tie_state\<lparr>readyqueue := [0, 2]\<rparr>, Some 1)"
  by (simp add: prio_schedule_def prio_pick_next_def requeued_def tie_state_def
        list_empty_def list_del_init_def ex_defs word_le_nat_alt)

text \<open>
  Claim C4, amended: on a tick with a non-empty ready queue (with the still-runnable
  current process requeued at its tail), \<^verbatim>\<open>prio_schedule\<close> selects and removes a process
  of the highest priority, and among several processes of that priority the one met
  last in queue order: no process before it has a higher priority and every process
  after it has a strictly lower one.
\<close>

theorem prio_schedule_picks_last_highest:
  assumes ne: "requeued s \<noteq> []"
    and dist: "distinct (requeued s)"
  shows "\<exists>xs n ys. requeued s = xs @ n # ys \<and>
           prio_schedule s = Inr (s\<lparr>readyqueue := xs @ ys\<rparr>, Some n) \<and>
           (\<forall>p \<in> set xs. prio (procs s p) \<le> prio (procs s n)) \<and>
           (\<forall>p \<in> set ys. prio (procs s p) < prio (procs s n))"
proof -
  obtain mx nx where scan: "prio_scan (procs s) (requeued s) 0 None = (mx, nx)"
    by (cases "prio_scan (procs s) (requeued s) 0 None")
  from ne obtain q where "q \<in> set (requeued s)" by (cases "requeued s") auto
  then have "\<not> (\<forall>p \<in> set (requeued s). prio (procs s p) < 0)" by auto
  with prio_scan_last_max [OF scan] obtain xs n ys where
    h: "requeued s = xs @ n # ys" "nx = Some n"
       "\<forall>p \<in> set xs. prio (procs s p) \<le> prio (procs s n)"
       "\<forall>p \<in> set ys. prio (procs s p) < prio (procs s n)" by blast
  from dist h(1) have "n \<notin> set xs" by simp
  then have "remove1 n (xs @ n # ys) = xs @ ys" by (simp add: remove1_append)
  with ne scan h(1,2) have "prio_schedule s = Inr (s\<lparr>readyqueue := xs @ ys\<rparr>, Some n)"
    by (simp add: prio_schedule_requeued prio_pick_next_def list_empty_def list_del_init_def)
  with h show ?thesis by blast
qed

theorem prio_schedule_picks_last_highest_witness:
  "\<exists>xs n ys. requeued tie_state = xs @ n # ys \<and>
      prio_schedule tie_state = Inr (tie_state\<lparr>readyqueue := xs @ ys\<rparr>, Some n) \<and>
      (\<forall>p \<in> set xs. prio (procs tie_state p) \<le> prio (procs tie_state n)) \<and>
      (\<forall>p \<in> set ys. prio (procs tie_state p) < prio (procs tie_state n))"
proof -
  have ne: "requeued tie_state \<noteq> []"
    and dist: "distinct (requeued tie_state)"
    by (simp_all add: requeued_def tie_state_def)
  from prio_schedule_picks_last_highest [OF ne dist] show ?thesis .
qed

subsection \<open>Default release\<close>

text \<open>
  Claim C5: when the caller owns the resource (and the waiters are blocked, as
  \<^verbatim>\<open>fcfs_release\<close> asserts), \<^verbatim>\<open>fcfs_release\<close> clears the owner; with a non-empty wait
  list exactly its first, earliest inserted, entry is removed, becomes ready and is
  appended to the tail of the ready queue, and the owner stays \<^verbatim>\<open>NULL\<close>.
\<close>

theorem fcfs_release_wakes_earliest_waiter:
  assumes cur: "current s = Some c"
    and own: "owner (resources s rid) = Some c"
    and blk: "\<forall>w \<in> set (waitqueue (resources s rid)). status (procs s w) = PROCESS_BLOCKED"
  shows "\<exists>s'. fcfs_release rid s = Inr s' \<and>
           owner (resources s' rid) = None \<and>
           current s' = current s \<and>
           (\<forall>r. r \<noteq> rid \<longrightarrow> resources s' r = resources s r) \<and>
           (case waitqueue (resources s rid) of
              [] \<Rightarrow> waitqueue (resources s' rid) = [] \<and> readyqueue s' = readyqueue s \<and>
                    procs s' = procs s
            | w # ws \<Rightarrow>
                waitqueue (resources s' rid) = ws \<and>
                readyqueue s' = readyqueue s @ [w] \<and>
                procs s' = (procs s)(w := (procs s w)\<lparr>status := PROCESS_READY\<rparr>))"
proof (cases "waitqueue (resources s rid)")
  case Nil
  then show ?thesis
    using cur own by (simp add: fcfs_release_def)
next
  case (Cons w ws)
  with blk have "status (procs s w) = PROCESS_BLOCKED" by simp
  with Cons cur own show ?thesis
    by (simp add: fcfs_release_def list_add_tail_def list_del_init_def)
qed

theorem fcfs_release_wakes_earliest_waiter_witness:
  "\<exists>s'. fcfs_release 0 two_waiters_state = Inr s' \<and>
      owner (resources s' 0) = None \<and>
      waitqueue (resources s' 0) = [2] \<and>
      readyqueue s' = [1] \<and>
      status (procs s' 1) = PROCESS_READY \<and>
      status (procs s' 2) = PROCESS_BLOCKED"
proof -
  have cur: "current two_waiters_state = Some 0"
    and own: "owner (resources two_waiters_state 0) = Some 0"
    and blk: "\<forall>w \<in> set (waitqueue (resources two_waiters_state 0)).
                status (procs two_waiters_state w) = PROCESS_BLOCKED"
    by (simp_all add: two_waiters_state_def)
  from fcfs_release_wakes_earliest_waiter [OF cur own blk] show ?thesis
    by (auto simp: two_waiters_state_def)
qed

subsection \<open>Priority inheritance\<close>

text \<open>
  Claim C6: \<^verbatim>\<open>pip_acquire\<close> on a resource that has an owner blocks the caller, appends it
  to the wait list and returns false; the owner's priority becomes the caller's priority
  when that is strictly higher and is unchanged otherwise.
\<close>

theorem pip_acquire_blocks_and_inherits:
  assumes cur: "current s = Some c"
    and own: "owner (resources s rid) = Some ow"
  shows "\<exists>s'. pip_acquire rid s = Inr (s', False) \<and>
           status (procs s' c) = PROCESS_BLOCKED \<and>
           waitqueue (resources s' rid) = waitqueue (resources s rid) @ [c] \<and>
           owner (resources s' rid) = Some ow \<and>
           prio (procs s' ow) =
             (if prio (procs s c) > prio (procs s ow) then prio (procs s c)
              else prio (procs s ow))"
  using cur own by (simp add: pip_acquire_def Let_def list_add_tail_def)

theorem pip_acquire_blocks_and_inherits_witness:
  "\<exists>s'. pip_acquire 0 inherit_state = Inr (s', False) \<and>
      status (procs s' 1) = PROCESS_BLOCKED \<and>
      waitqueue (resources s' 0) = [1] \<and>
      owner (resources s' 0) = Some 0 \<and>
      prio (procs s' 0) = 5"
proof -
  have cur: "current inherit_state = Some 1"
    and own: "owner (resources inherit_state 0) = Some 0"
    by (simp_all add: inherit_state_def)
  from pip_acquire_blocks_and_inherits [OF cur own] show ?thesis
    by (auto simp: inherit_state_def)
qed

subsection \<open>Priority ceiling\<close>




text \<open>
  Claim C8: \<^verbatim>\<open>pcp_release\<close> by the owner (which is in no wait list while it runs)
  leaves the caller's own priority as it is; with an empty wait list no process is
  changed, so the caller stays at \<^verbatim>\<open>MAX_PRIO\<close>.
\<close>

theorem pcp_release_keeps_caller_prio:
  assumes cur: "current s = Some c"
    and own: "owner (resources s rid) = Some c"
    and notin: "c \<notin> set (waitqueue (resources s rid))"
    and blk: "\<forall>w \<in> set (waitqueue (resources s rid)). status (procs s w) = PROCESS_BLOCKED"
  shows "\<exists>s'. pcp_release rid s = Inr s' \<and>
           prio (procs s' c) = prio (procs s c) \<and>
           prio_orig (procs s' c) = prio_orig (procs s c) \<and>
           (waitqueue (resources s rid) = [] \<longrightarrow> procs s' = procs s)"
proof (cases "waitqueue (resources s rid)")
  case Nil
  then show ?thesis
    using cur own by (simp add: pcp_release_def)
next
  case (Cons f fs)
  obtain ps w where scan: "pcp_scan (waitqueue (resources s rid)) (procs s) f = (ps, w)"
    by (cases "pcp_scan (waitqueue (resources s rid)) (procs s) f")
  from pcp_scan_waiter [OF scan] Cons have win: "w \<in> set (waitqueue (resources s rid))"
    by auto
  with blk pcp_scan_status [OF scan, of w] have st: "status (ps w) = PROCESS_BLOCKED"
    by simp
  from win notin have neq: "w \<noteq> c" by auto
  from pcp_scan_frame [OF scan notin] have fr: "ps c = procs s c" .
  from Cons scan st cur own neq fr show ?thesis
    by (simp add: pcp_release_def)
qed

theorem pcp_release_keeps_caller_prio_witness:
  "pcp_acquire 64 0 free_state = Inr (held_state, True) \<and>
   (\<exists>s'. pcp_release 0 held_state = Inr s' \<and>
      prio (procs s' 0) = 64 \<and> prio_orig (procs s' 0) = 2) \<and>
   (\<exists>s'. pcp_release 0 two_waiters_state = Inr s' \<and>
      prio (procs s' 0) = 64 \<and> prio_orig (procs s' 0) = 2)"
proof -
  have acq: "pcp_acquire 64 0 free_state = Inr (held_state, True)"
    by (simp add: pcp_acquire_def free_state_def held_state_def ex_defs)
  have cur: "current held_state = Some 0"
    and own: "owner (resources held_state 0) = Some 0"
    and notin: "0 \<notin> set (waitqueue (resources held_state 0))"
    and blk: "\<forall>w \<in> set (waitqueue (resources held_state 0)).
                status (procs held_state w) = PROCESS_BLOCKED"
    by (simp_all add: held_state_def)
  from pcp_release_keeps_caller_prio [OF cur own notin blk]
  have a: "\<exists>s'. pcp_release 0 held_state = Inr s' \<and>
      prio (procs s' 0) = 64 \<and> prio_orig (procs s' 0) = 2"
    by (auto simp: held_state_def)
  have cur2: "current two_waiters_state = Some 0"
    and own2: "owner (resources two_waiters_state 0) = Some 0"
    and notin2: "0 \<notin> set (waitqueue (resources two_waiters_state 0))"
    and blk2: "\<forall>w \<in> set (waitqueue (resources two_waiters_state 0)).
                status (procs two_waiters_state w) = PROCESS_BLOCKED"
    by (simp_all add: two_waiters_state_def)
  from pcp_release_keeps_caller_prio [OF cur2 own2 notin2 blk2]
  have b: "\<exists>s'. pcp_release 0 two_waiters_state = Inr s' \<and>
      prio (procs s' 0) = 64 \<and> prio_orig (procs s' 0) = 2"
    by (auto simp: two_waiters_state_def)
  from acq a b show ?thesis by blast
qed

text \<open>
  Claim C10: \<^verbatim>\<open>pcp_release\<close> and \<^verbatim>\<open>pip_release\<close> are the same state transformer
  (same assertion outcome, same waiter, same priority resets, same resulting state); the
  two policies share \<^verbatim>\<open>prio_schedule\<close> as well and differ in \<^verbatim>\<open>acquire\<close>.
\<close>

theorem pcp_release_eq_pip_release:
  "pcp_release rid s = pip_release rid s \<and>
   release (pcp_scheduler MAX_PRIO) = release pip_scheduler \<and>
   schedule (pcp_scheduler MAX_PRIO) = schedule pip_scheduler \<and>
   acquire (pcp_scheduler 64) 0 free_state \<noteq> acquire pip_scheduler 0 free_state"
proof -
  have rel: "pcp_release r t = pip_release r t" for r t
    unfolding pcp_release_def pip_release_def pcp_scan_eq_pip_scan by (rule refl)
  then have "pcp_release = pip_release" by (intro ext)
  moreover have "pcp_acquire 64 0 free_state \<noteq> pip_acquire 0 free_state"
  proof
    assume "pcp_acquire 64 0 free_state = pip_acquire 0 free_state"
    then have "prio (procs (fst (projr (pcp_acquire 64 0 free_state))) 0)
      = prio (procs (fst (projr (pip_acquire 0 free_state))) 0)" by simp
    then show False
      by (simp add: pcp_acquire_def pip_acquire_def free_state_def ex_defs)
  qed
  ultimately show ?thesis
    using rel by (simp add: pcp_scheduler_def pip_scheduler_def)
qed

subsection \<open>Round-robin and FCFS\<close>

text \<open>
  Claim C7: processes A (reference 0) and B (reference 1), both of lifespan 3, arrived in
  the order A, B and use no resource. Ticking with \<^verbatim>\<open>rr_schedule\<close> runs A, B, A, B, A, B;
  ticking with \<^verbatim>\<open>fcfs_schedule\<close> runs A, A, A, B, B, B.
\<close>

theorem rr_fcfs_interleaving:
  "run_ticks rr_schedule 6 ab_state = Inr [Some 0, Some 1, Some 0, Some 1, Some 0, Some 1] \<and>
   run_ticks fcfs_schedule 6 ab_state = Inr [Some 0, Some 0, Some 0, Some 1, Some 1, Some 1]"
  by (simp add: run_ticks_numeral tick_def rr_schedule_def rr_pick_next_def
        fcfs_schedule_def fcfs_pick_next_def ab_state_def list_add_tail_def
        list_del_init_def ex_defs)

end
